theory Spec2Isabelle
  imports Main
begin

section \<open>NAFI: a unified configuration reader (nafi.go)\<close>

text \<open>
  The development embeds \<^verbatim>\<open>newConfigParserFromBytes\<close>, \<^verbatim>\<open>getNestedValue\<close> and
  \<^verbatim>\<open>Get\<close> of \<^verbatim>\<open>nafi.go\<close>. A Go \<^verbatim>\<open>string\<close> is a sequence of bytes, so it is a
  \<open>string\<close> (a \<open>char list\<close>, one \<open>char\<close> per byte) here; \<^verbatim>\<open>string(content)\<close> is the
  identity.
\<close>

subsection \<open>The functions of Go's package strings that the code calls\<close>

text \<open>
  Every separator the code passes (\<^verbatim>\<open>"\n"\<close>, \<^verbatim>\<open>"="\<close>, \<^verbatim>\<open>"."\<close>) is one byte long, so the
  separator is a \<open>char\<close>. \<open>Index\<close> is \<^verbatim>\<open>strings.Index\<close> with Go's \<^verbatim>\<open>-1\<close> as \<open>None\<close>.
\<close>

fun Index :: "string \<Rightarrow> char \<Rightarrow> nat option" where
  "Index [] c = None"
| "Index (x # xs) c = (if x = c then Some 0 else map_option Suc (Index xs c))"

definition Contains :: "string \<Rightarrow> char \<Rightarrow> bool" where
  "Contains s c = (Index s c \<noteq> None)"

definition HasPrefix :: "string \<Rightarrow> string \<Rightarrow> bool" where
  "HasPrefix s p = (length p \<le> length s \<and> take (length p) s = p)"

definition HasSuffix :: "string \<Rightarrow> string \<Rightarrow> bool" where
  "HasSuffix s p = (length p \<le> length s \<and> drop (length s - length p) s = p)"

text \<open>
  The loop of \<^verbatim>\<open>strings.genSplit\<close>: cut at the next separator while cuts are left
  (\<open>k\<close> of them), the remainder is the last piece.
\<close>

fun pieces :: "nat \<Rightarrow> char \<Rightarrow> string \<Rightarrow> string list" where
  "pieces 0 c s = [s]"
| "pieces (Suc k) c s =
     (case Index s c of
        None \<Rightarrow> [s]
      | Some m \<Rightarrow> take m s # pieces k c (drop (Suc m) s))"

text \<open>\<^verbatim>\<open>strings.Split(s, sep)\<close>: \<^verbatim>\<open>n = Count(s, sep) + 1\<close> pieces, that is \<^verbatim>\<open>Count\<close> cuts.\<close>

definition Split :: "string \<Rightarrow> char \<Rightarrow> string list" where
  "Split s c = pieces (count_list s c) c s"

text \<open>
  \<^verbatim>\<open>strings.SplitN(s, sep, n)\<close>: no piece for \<^verbatim>\<open>n == 0\<close>, every piece for \<^verbatim>\<open>n < 0\<close>, at most
  \<open>n\<close> pieces otherwise (the last one is the unsplit remainder).
\<close>

definition SplitN :: "string \<Rightarrow> char \<Rightarrow> int \<Rightarrow> string list" where
  "SplitN s c n =
     (if n = 0 then [] else if n < 0 then Split s c else pieces (nat n - 1) c s)"

text \<open>
  \<^verbatim>\<open>strings.TrimSpace\<close> removes leading and trailing white space as Unicode defines it
  (\<^verbatim>\<open>unicode.IsSpace\<close>), reading the bytes as UTF-8. The white-space runes are the six
  ASCII ones and U+0085, U+00A0, U+1680, U+2000 to U+200A, U+2028, U+2029, U+202F,
  U+205F and U+3000. A byte sequence decodes to one of these runes exactly when it is
  that rune's UTF-8 encoding (Go's decoder rejects every other encoding and yields
  U+FFFD, which is no space), and the first byte of a multi-byte encoding is never a
  continuation byte, so decoding the first (last) rune and testing it is the same as
  testing whether one of the encodings below is a prefix (suffix).
\<close>

definition asciiSpace :: "char \<Rightarrow> bool" where
  "asciiSpace c =
     (c = CHR 0x09 \<or> c = CHR 0x0A \<or> c = CHR 0x0B \<or> c = CHR 0x0C \<or> c = CHR 0x0D \<or> c = CHR 0x20)"

definition unicodeSpaces :: "string list" where
  "unicodeSpaces =
     [[CHR 0xC2, CHR 0x85], [CHR 0xC2, CHR 0xA0], [CHR 0xE1, CHR 0x9A, CHR 0x80],
      [CHR 0xE2, CHR 0x80, CHR 0x80], [CHR 0xE2, CHR 0x80, CHR 0x81],
      [CHR 0xE2, CHR 0x80, CHR 0x82], [CHR 0xE2, CHR 0x80, CHR 0x83],
      [CHR 0xE2, CHR 0x80, CHR 0x84], [CHR 0xE2, CHR 0x80, CHR 0x85],
      [CHR 0xE2, CHR 0x80, CHR 0x86], [CHR 0xE2, CHR 0x80, CHR 0x87],
      [CHR 0xE2, CHR 0x80, CHR 0x88], [CHR 0xE2, CHR 0x80, CHR 0x89],
      [CHR 0xE2, CHR 0x80, CHR 0x8A], [CHR 0xE2, CHR 0x80, CHR 0xA8],
      [CHR 0xE2, CHR 0x80, CHR 0xA9], [CHR 0xE2, CHR 0x80, CHR 0xAF],
      [CHR 0xE2, CHR 0x81, CHR 0x9F], [CHR 0xE3, CHR 0x80, CHR 0x80]]"

text \<open>The number of bytes of the white-space rune a string starts (ends) with, 0 if none.\<close>

definition spaceAtStart :: "string \<Rightarrow> nat" where
  "spaceAtStart s =
     (case s of
        [] \<Rightarrow> 0
      | c # _ \<Rightarrow>
          if asciiSpace c then 1
          else (case find (HasPrefix s) unicodeSpaces of None \<Rightarrow> 0 | Some t \<Rightarrow> length t))"

definition spaceAtEnd :: "string \<Rightarrow> nat" where
  "spaceAtEnd s =
     (if s = [] then 0
      else if asciiSpace (last s) then 1
      else (case find (HasSuffix s) unicodeSpaces of None \<Rightarrow> 0 | Some t \<Rightarrow> length t))"

function TrimLeft :: "string \<Rightarrow> string" where
  "TrimLeft s = (if spaceAtStart s = 0 then s else TrimLeft (drop (spaceAtStart s) s))"
  by pat_completeness auto
termination
  by (relation "measure length") (auto simp: spaceAtStart_def split: list.splits)

function TrimRight :: "string \<Rightarrow> string" where
  "TrimRight s =
     (if spaceAtEnd s = 0 then s else TrimRight (take (length s - spaceAtEnd s) s))"
  by pat_completeness auto
termination
  by (relation "measure length") (auto simp: spaceAtEnd_def split: if_splits)

declare TrimLeft.simps [simp del] TrimRight.simps [simp del]

definition TrimSpace :: "string \<Rightarrow> string" where
  "TrimSpace s = TrimRight (TrimLeft s)"

subsection \<open>Data model\<close>

text \<open>
  A value of Go's \<^verbatim>\<open>interface{}\<close> as the decoders produce it. The type switch of
  \<^verbatim>\<open>getNestedValue\<close> tells \<^verbatim>\<open>map[string]interface{}\<close> from everything else, and
  \<^verbatim>\<open>fmt.Sprintf("%v", v)\<close> prints a string as it is; \<open>IOther\<close> holds every other dynamic
  value (nil, booleans, numbers, arrays, maps with keys that are not strings).
\<close>

datatype 'a iface =
    IString string
  | IMap "string \<Rightarrow> 'a iface option"
  | IOther 'a

text \<open>
  The errors the code builds: \<^verbatim>\<open>fmt.Errorf("key %q not found", key)\<close>,
  \<^verbatim>\<open>fmt.Errorf("key %q not found in section %q", k, section)\<close> and
  \<^verbatim>\<open>errors.New("unsupported file type " + fileType)\<close>; \<open>DecodeError\<close> is an error a
  decoder returned, which the code passes on unchanged.
\<close>

datatype error =
    KeyNotFound string
  | KeyNotFoundInSection string string
  | UnsupportedFileType string
  | DecodeError string

text \<open>
  \<^verbatim>\<open>*ini.File\<close> of gopkg.in/ini.v1: sections by name, each with its keys and their
  stored values.
\<close>

type_synonym ini_Section = "string \<rightharpoonup> string"
type_synonym ini_File = "string \<rightharpoonup> ini_Section"

text \<open>
  The libraries the code calls and this repository does not contain are parameters:
  the three decoders, \<^verbatim>\<open>fmt.Sprintf("%v", v)\<close> on a value that is no string, and the
  expansion of \<^verbatim>\<open>%(name)s\<close> references that ini.v1 applies to a value containing
  \<^verbatim>\<open>%\<close> (arguments: file, section name, key name, stored value).
\<close>

record 'a extern =
  ini_Load :: "string \<Rightarrow> error + ini_File"
  json_Unmarshal :: "string \<Rightarrow> error + (string \<rightharpoonup> 'a iface)"
  yaml_Unmarshal :: "string \<Rightarrow> error + (string \<rightharpoonup> 'a iface)"
  Sprintf_v :: "'a iface \<Rightarrow> string"
  expandVars :: "ini_File \<Rightarrow> string \<Rightarrow> string \<Rightarrow> string \<Rightarrow> string"

text \<open>\<^verbatim>\<open>type ConfigParserObj struct\<close>; \<open>iniFile\<close> is a pointer, \<open>None\<close> is nil.\<close>

record 'a ConfigParserObj =
  data :: "string \<rightharpoonup> 'a iface"
  raw :: "string \<rightharpoonup> string"
  fileType :: string
  iniFile :: "ini_File option"

subsection \<open>newConfigParserFromBytes\<close>

text \<open>The body of the loop over the lines of a conf file, on the map \<^verbatim>\<open>parser.raw\<close>.\<close>

definition confLine :: "(string \<rightharpoonup> string) \<Rightarrow> string \<Rightarrow> (string \<rightharpoonup> string)" where
  "confLine m line0 =
     (let line = TrimSpace line0 in
      if line = [] \<or> HasPrefix line ''#'' then m
      else
        (case SplitN line CHR ''='' 2 of
           [p0, p1] \<Rightarrow> m(TrimSpace p0 \<mapsto> TrimSpace p1)
         | _ \<Rightarrow> m))"

definition newConfigParserFromBytes ::
  "'a extern \<Rightarrow> string \<Rightarrow> string \<Rightarrow> error + 'a ConfigParserObj" where
  "newConfigParserFromBytes X ft content =
     (let parser = \<lparr>data = Map.empty, raw = Map.empty, fileType = ft, iniFile = None\<rparr> in
      if ft = ''conf'' then
        Inr (parser\<lparr>raw := foldl confLine (raw parser) (Split content (CHR 0x0A))\<rparr>)
      else if ft = ''ini'' then
        (case ini_Load X content of
           Inl err \<Rightarrow> Inl err
         | Inr f \<Rightarrow> Inr (parser\<lparr>iniFile := Some f\<rparr>))
      else if ft = ''json'' then
        (case json_Unmarshal X content of
           Inl err \<Rightarrow> Inl err
         | Inr jsonData \<Rightarrow> Inr (parser\<lparr>data := jsonData\<rparr>))
      else if ft = ''yaml'' then
        (case yaml_Unmarshal X content of
           Inl err \<Rightarrow> Inl err
         | Inr yamlData \<Rightarrow> Inr (parser\<lparr>data := yamlData\<rparr>))
      else Inl (UnsupportedFileType ft))"

subsection \<open>getNestedValue\<close>

text \<open>
  The loop over the parts with the variable \<^verbatim>\<open>current\<close>; \<open>None\<close> is the result
  \<^verbatim>\<open>(nil, false)\<close>, \<open>Some v\<close> is \<^verbatim>\<open>(v, true)\<close>.
\<close>

fun walk :: "'a iface \<Rightarrow> string list \<Rightarrow> 'a iface option" where
  "walk current [] = Some current"
| "walk (IMap cur) (part # parts) =
     (case cur part of None \<Rightarrow> None | Some nxt \<Rightarrow> walk nxt parts)"
| "walk _ (part # parts) = None"

definition getNestedValue :: "(string \<rightharpoonup> 'a iface) \<Rightarrow> string \<Rightarrow> 'a iface option" where
  "getNestedValue d key = walk (IMap d) (Split key CHR ''.'')"

subsection \<open>The accessors of ini.v1 that Get calls\<close>

text \<open>
  gopkg.in/ini.v1 is a dependency of the repository. \<^verbatim>\<open>File.Section(name)\<close> and
  \<^verbatim>\<open>Section.Key(name)\<close> "assume" that the section or key exists: when it does not,
  they create it (\<^verbatim>\<open>NewSection\<close>, \<^verbatim>\<open>NewKey(name, "")\<close>) and return the new one, so they
  return the file as well here. The empty section name stands for the section
  \<^verbatim>\<open>DEFAULT\<close>. \<^verbatim>\<open>NewKey\<close> refuses an empty key name, and \<^verbatim>\<open>Key\<close> returns nil then
  (\<open>None\<close>). A section is handed on by its name.
\<close>

definition DefaultSection :: string where
  "DefaultSection = ''DEFAULT''"

definition sectionName :: "string \<Rightarrow> string" where
  "sectionName name = (if name = [] then DefaultSection else name)"

definition File_Section :: "ini_File \<Rightarrow> string \<Rightarrow> string \<times> ini_File" where
  "File_Section f name =
     (let n = sectionName name in
      case f n of
        Some sec \<Rightarrow> (n, f)
      | None \<Rightarrow> (n, f(n \<mapsto> Map.empty)))"

definition Section_Key :: "ini_File \<Rightarrow> string \<Rightarrow> string \<Rightarrow> string option \<times> ini_File" where
  "Section_Key f n name =
     (case f n of
        None \<Rightarrow> (None, f)
      | Some sec \<Rightarrow>
          (case sec name of
             Some v \<Rightarrow> (Some name, f)
           | None \<Rightarrow>
               if name = [] then (None, f)
               else (Some name, f(n \<mapsto> sec(name \<mapsto> [])))))"

text \<open>
  \<^verbatim>\<open>Key.String()\<close> is \<^verbatim>\<open>transformValue\<close> of the stored value: the value itself unless it
  contains \<^verbatim>\<open>%\<close>.
\<close>

definition transformValue ::
  "'a extern \<Rightarrow> ini_File \<Rightarrow> string \<Rightarrow> string \<Rightarrow> string \<Rightarrow> string" where
  "transformValue X f n k v = (if \<not> Contains v CHR ''%'' then v else expandVars X f n k v)"

definition Key_String :: "'a extern \<Rightarrow> ini_File \<Rightarrow> string \<Rightarrow> string \<Rightarrow> string" where
  "Key_String X f n k =
     (case f n of
        None \<Rightarrow> []
      | Some sec \<Rightarrow> (case sec k of None \<Rightarrow> [] | Some v \<Rightarrow> transformValue X f n k v))"

text \<open>
  The chain \<^verbatim>\<open>c.iniFile.Section(section).Key(k).String()\<close>. It panics (\<open>None\<close>) on a nil
  file and on a nil key; otherwise it yields the string and the file as the two
  accessors left it.
\<close>

definition Section_Key_String ::
  "'a extern \<Rightarrow> ini_File option \<Rightarrow> string \<Rightarrow> string \<Rightarrow> (string \<times> ini_File) option" where
  "Section_Key_String X fo section k =
     (case fo of
        None \<Rightarrow> None
      | Some f \<Rightarrow>
          (case File_Section f section of
             (n, f1) \<Rightarrow>
               (case Section_Key f1 n k of
                  (None, f2) \<Rightarrow> None
                | (Some kn, f2) \<Rightarrow> Some (Key_String X f2 n kn, f2))))"

subsection \<open>Get\<close>

text \<open>\<^verbatim>\<open>fmt.Sprintf("%v", val)\<close>.\<close>

definition Sprintf :: "'a extern \<Rightarrow> 'a iface \<Rightarrow> string" where
  "Sprintf X val = (case val of IString s \<Rightarrow> s | _ \<Rightarrow> Sprintf_v X val)"

text \<open>
  \<^verbatim>\<open>Get\<close> returns Go's pair \<^verbatim>\<open>(string, error)\<close>, with \<open>None\<close> for the nil error, and the
  object as the call left it (the receiver is a pointer, and \<open>iniFile\<close> points to a
  file that the accessors may extend). The result \<open>None\<close> is a panic.
\<close>

definition Get ::
  "'a extern \<Rightarrow> 'a ConfigParserObj \<Rightarrow> string \<Rightarrow>
     ((string \<times> error option) \<times> 'a ConfigParserObj) option" where
  "Get X c key =
     (if fileType c = ''conf'' then
        (case raw c key of
           None \<Rightarrow> Some (([], Some (KeyNotFound key)), c)
         | Some val \<Rightarrow> Some ((val, None), c))
      else if fileType c = ''ini'' then
        (if \<not> Contains key CHR ''.'' then
           (case Section_Key_String X (iniFile c) [] key of
              None \<Rightarrow> None
            | Some (val, f) \<Rightarrow>
                if val = [] then Some (([], Some (KeyNotFound key)), c\<lparr>iniFile := Some f\<rparr>)
                else Some ((val, None), c\<lparr>iniFile := Some f\<rparr>))
         else
           (case SplitN key CHR ''.'' 2 of
              [section, k] \<Rightarrow>
                (case Section_Key_String X (iniFile c) section k of
                   None \<Rightarrow> None
                 | Some (val, f) \<Rightarrow>
                     if val = [] then
                       Some (([], Some (KeyNotFoundInSection k section)), c\<lparr>iniFile := Some f\<rparr>)
                     else Some ((val, None), c\<lparr>iniFile := Some f\<rparr>))
            | _ \<Rightarrow> None))
      else if fileType c = ''json'' \<or> fileType c = ''yaml'' then
        (case getNestedValue (data c) key of
           None \<Rightarrow> Some (([], Some (KeyNotFound key)), c)
         | Some val \<Rightarrow> Some ((Sprintf X val, None), c))
      else Some (([], Some (UnsupportedFileType (fileType c))), c))"

text \<open>
  A caller's sequence \<^verbatim>\<open>parser, _ := newConfigParserFromBytes(ft, content)\<close>,
  \<^verbatim>\<open>parser.Get(key)\<close>, as the repository's tests run it: the pair \<^verbatim>\<open>Get\<close> returns. After
  a failed construction \<^verbatim>\<open>parser\<close> is nil and \<^verbatim>\<open>Get\<close> panics on \<^verbatim>\<open>c.fileType\<close>.
\<close>

definition loadAndGet ::
  "'a extern \<Rightarrow> string \<Rightarrow> string \<Rightarrow> string \<Rightarrow> (string \<times> error option) option" where
  "loadAndGet X ft content key =
     (case newConfigParserFromBytes X ft content of
        Inl err \<Rightarrow> None
      | Inr c \<Rightarrow> map_option fst (Get X c key))"

text \<open>
  \<open>n\<close> calls of \<^verbatim>\<open>Get\<close> with the same key, one after the other on the same object: the
  list of the pairs returned and the object after the last call.
\<close>

fun repeatGet ::
  "'a extern \<Rightarrow> 'a ConfigParserObj \<Rightarrow> string \<Rightarrow> nat \<Rightarrow>
     ((string \<times> error option) list \<times> 'a ConfigParserObj) option" where
  "repeatGet X c key 0 = Some ([], c)"
| "repeatGet X c key (Suc n) =
     (case Get X c key of
        None \<Rightarrow> None
      | Some (r, c') \<Rightarrow>
          (case repeatGet X c' key n of
             None \<Rightarrow> None
           | Some (rs, c'') \<Rightarrow> Some (r # rs, c'')))"

subsection \<open>The specification's vocabulary\<close>

text \<open>Segments joined by a separator; splitting is its inverse.\<close>

fun join :: "char \<Rightarrow> string list \<Rightarrow> string" where
  "join c [] = []"
| "join c [p] = p"
| "join c (p # q # ps) = p @ c # join c (q # ps)"

text \<open>
  One step of the walk through a nested document: the current value must be a mapping
  and must contain the segment. \<open>descend\<close> takes the steps one segment after the other.
\<close>

definition child :: "'a iface \<Rightarrow> string \<Rightarrow> 'a iface option" where
  "child v seg = (case v of IMap m \<Rightarrow> m seg | _ \<Rightarrow> None)"

definition descend :: "'a iface \<Rightarrow> string list \<Rightarrow> 'a iface option" where
  "descend v segs = foldl (\<lambda>cur seg. Option.bind cur (\<lambda>w. child w seg)) (Some v) segs"

text \<open>
  A line of a flat file as the specification reads it: nothing for a blank line, a
  comment or a line without \<^verbatim>\<open>=\<close>; otherwise the text before the first \<^verbatim>\<open>=\<close> and the
  text after it, both trimmed. The tests are made on the trimmed line.
\<close>

definition confEntry :: "string \<Rightarrow> (string \<times> string) option" where
  "confEntry line0 =
     (let line = TrimSpace line0 in
      if line = [] \<or> HasPrefix line ''#'' \<or> CHR ''='' \<notin> set line then None
      else Some (TrimSpace (takeWhile (\<lambda>x. x \<noteq> CHR ''='') line),
                 TrimSpace (tl (dropWhile (\<lambda>x. x \<noteq> CHR ''='') line))))"

text \<open>
  The address of a key in a sectioned file: the unnamed section for a key without a
  dot, otherwise the text before the first dot and all the text after it. \<open>iniStored\<close>
  is the value the section table holds there (the unnamed section is \<^verbatim>\<open>DEFAULT\<close>),
  \<open>iniValue\<close> the string ini.v1 reports for it.
\<close>

definition iniAddress :: "string \<Rightarrow> string \<times> string" where
  "iniAddress key =
     (if CHR ''.'' \<in> set key
      then (takeWhile (\<lambda>x. x \<noteq> CHR ''.'') key, tl (dropWhile (\<lambda>x. x \<noteq> CHR ''.'') key))
      else ([], key))"

definition iniStored :: "ini_File \<Rightarrow> string \<Rightarrow> string \<Rightarrow> string option" where
  "iniStored f section k =
     (case f (sectionName section) of
        None \<Rightarrow> None
      | Some sec \<Rightarrow> sec k)"

definition iniValue :: "'a extern \<Rightarrow> ini_File \<Rightarrow> string \<Rightarrow> string \<Rightarrow> string option" where
  "iniValue X f section k =
     map_option (transformValue X f (sectionName section) k) (iniStored f section k)"

text \<open>
  The string the decoded data of an object holds for a key, in each format's own
  addressing; \<open>None\<close> when the key is absent.
\<close>

definition decoded :: "'a extern \<Rightarrow> 'a ConfigParserObj \<Rightarrow> string \<Rightarrow> string option" where
  "decoded X c key =
     (if fileType c = ''conf'' then raw c key
      else if fileType c = ''ini'' then
        (case iniFile c of
           None \<Rightarrow> None
         | Some f \<Rightarrow> iniValue X f (fst (iniAddress key)) (snd (iniAddress key)))
      else map_option (Sprintf X) (descend (IMap (data c)) (Split key CHR ''.'')))"

text \<open>Whether a section of a file has a key with the empty name.\<close>

definition hasEmptyKey :: "ini_File \<Rightarrow> string \<Rightarrow> bool" where
  "hasEmptyKey f n = (case f n of None \<Rightarrow> False | Some sec \<Rightarrow> sec [] \<noteq> None)"

subsection \<open>Sample inputs\<close>

text \<open>
  The section tables of the files \<^verbatim>\<open>[s]\<close>, \<^verbatim>\<open>foo=bar\<close> (from the repository's tests) and
  \<^verbatim>\<open>[s]\<close>, \<^verbatim>\<open>foo=\<close>, and the tree of the document
  \<^verbatim>\<open>{"section1": {"foo": "bar"}, "plain": "top", "intkey": 22}\<close>.
\<close>

definition sampleIni :: ini_File where
  "sampleIni = [DefaultSection \<mapsto> Map.empty, ''s'' \<mapsto> [''foo'' \<mapsto> ''bar'']]"

text \<open>The first table with an empty key \<^verbatim>\<open>missing\<close> added to its section \<^verbatim>\<open>s\<close>.\<close>

definition sampleIniAfter :: ini_File where
  "sampleIniAfter =
     [DefaultSection \<mapsto> Map.empty, ''s'' \<mapsto> [''foo'' \<mapsto> ''bar'', ''missing'' \<mapsto> []]]"

definition sampleIniEmptyValue :: ini_File where
  "sampleIniEmptyValue = [DefaultSection \<mapsto> Map.empty, ''s'' \<mapsto> [''foo'' \<mapsto> []]]"

definition sampleIniText :: string where
  "sampleIniText = ''[s]'' @ [CHR 0x0A] @ ''foo=bar''"

definition sampleIniEmptyValueText :: string where
  "sampleIniEmptyValueText = ''[s]'' @ [CHR 0x0A] @ ''foo=''"

definition sampleTree :: "string \<rightharpoonup> nat iface" where
  "sampleTree =
     [''section1'' \<mapsto> IMap [''foo'' \<mapsto> IString ''bar''],
      ''plain'' \<mapsto> IString ''top'',
      ''intkey'' \<mapsto> IOther 22]"

definition sampleLibs :: "nat extern" where
  "sampleLibs =
     \<lparr>ini_Load = (\<lambda>content.
        if content = sampleIniText then Inr sampleIni
        else if content = sampleIniEmptyValueText then Inr sampleIniEmptyValue
        else Inl (DecodeError ''key-value delimiter not found'')),
      json_Unmarshal = (\<lambda>content. Inr sampleTree),
      yaml_Unmarshal = (\<lambda>content. Inr sampleTree),
      Sprintf_v = (\<lambda>v. case v of IString s \<Rightarrow> s | IMap m \<Rightarrow> ''map[foo:bar]'' | IOther n \<Rightarrow> ''22''),
      expandVars = (\<lambda>f n k v. v)\<rparr>"

text \<open>The objects that construction returns for the sample inputs.\<close>

definition sampleJsonObj :: "nat ConfigParserObj" where
  "sampleJsonObj = \<lparr>data = sampleTree, raw = Map.empty, fileType = ''json'', iniFile = None\<rparr>"

definition sampleIniObj :: "nat ConfigParserObj" where
  "sampleIniObj =
     \<lparr>data = Map.empty, raw = Map.empty, fileType = ''ini'', iniFile = Some sampleIni\<rparr>"

definition sampleIniEmptyValueObj :: "nat ConfigParserObj" where
  "sampleIniEmptyValueObj =
     \<lparr>data = Map.empty, raw = Map.empty, fileType = ''ini'',
      iniFile = Some sampleIniEmptyValue\<rparr>"

text \<open>
  An object of format json whose tree is that of the document
  \<^verbatim>\<open>{"outer": {"section1": {"foo": "bar"}}}\<close>.
\<close>

definition sampleDeepTree :: "string \<rightharpoonup> nat iface" where
  "sampleDeepTree = [''outer'' \<mapsto> IMap [''section1'' \<mapsto> IMap [''foo'' \<mapsto> IString ''bar'']]]"

definition sampleDeepObj :: "nat ConfigParserObj" where
  "sampleDeepObj =
     \<lparr>data = sampleDeepTree, raw = Map.empty, fileType = ''json'', iniFile = None\<rparr>"

section \<open>Facts about the string functions\<close>

lemma Index_None_iff: "Index s c = None \<longleftrightarrow> c \<notin> set s"
  by (induction s) auto

lemma Contains_iff: "Contains s c \<longleftrightarrow> c \<in> set s"
  by (simp add: Contains_def Index_None_iff)

lemma Index_Some_take: "Index s c = Some m \<Longrightarrow> take m s = takeWhile (\<lambda>x. x \<noteq> c) s"
  by (induction s arbitrary: m) (auto split: if_splits)

lemma Index_Some_drop: "Index s c = Some m \<Longrightarrow> drop (Suc m) s = tl (dropWhile (\<lambda>x. x \<noteq> c) s)"
  by (induction s arbitrary: m) (auto split: if_splits)

lemma Index_Some_decomp: "Index s c = Some m \<Longrightarrow> s = take m s @ c # drop (Suc m) s"
  by (induction s arbitrary: m) (auto split: if_splits)

lemma pieces_absent: "c \<notin> set s \<Longrightarrow> pieces k c s = [s]"
proof -
  assume "c \<notin> set s"
  then have "Index s c = None" by (simp add: Index_None_iff)
  then show ?thesis by (cases k) simp_all
qed

lemma pieces_one:
  "c \<in> set s \<Longrightarrow>
   pieces (Suc 0) c s = [takeWhile (\<lambda>x. x \<noteq> c) s, tl (dropWhile (\<lambda>x. x \<noteq> c) s)]"
proof -
  assume "c \<in> set s"
  then obtain m where m: "Index s c = Some m"
    by (cases "Index s c") (auto simp: Index_None_iff)
  show ?thesis
    using Index_Some_take [OF m] Index_Some_drop [OF m] by (simp add: m)
qed

lemma SplitN_two_present:
  "c \<in> set s \<Longrightarrow>
   SplitN s c 2 = [takeWhile (\<lambda>x. x \<noteq> c) s, tl (dropWhile (\<lambda>x. x \<noteq> c) s)]"
  using pieces_one [of c s] by (simp add: SplitN_def del: pieces.simps)

lemma SplitN_two_absent: "c \<notin> set s \<Longrightarrow> SplitN s c 2 = [s]"
  using pieces_absent [of c s "Suc 0"] by (simp add: SplitN_def del: pieces.simps)

lemma set_TrimLeft: "set (TrimLeft s) \<subseteq> set s"
proof (induction s rule: TrimLeft.induct)
  case (1 s)
  show ?case
  proof (cases "spaceAtStart s = 0")
    case True
    then show ?thesis by (simp add: TrimLeft.simps)
  next
    case False
    with 1 have "set (TrimLeft (drop (spaceAtStart s) s)) \<subseteq> set (drop (spaceAtStart s) s)"
      by simp
    also have "\<dots> \<subseteq> set s" by (rule set_drop_subset)
    finally show ?thesis using False by (subst TrimLeft.simps) simp
  qed
qed

lemma set_TrimRight: "set (TrimRight s) \<subseteq> set s"
proof (induction s rule: TrimRight.induct)
  case (1 s)
  show ?case
  proof (cases "spaceAtEnd s = 0")
    case True
    then show ?thesis by (simp add: TrimRight.simps)
  next
    case False
    with 1 have "set (TrimRight (take (length s - spaceAtEnd s) s))
        \<subseteq> set (take (length s - spaceAtEnd s) s)"
      by simp
    also have "\<dots> \<subseteq> set s" by (rule set_take_subset)
    finally show ?thesis using False by (subst TrimRight.simps) simp
  qed
qed

lemma set_TrimSpace: "set (TrimSpace s) \<subseteq> set s"
  unfolding TrimSpace_def using set_TrimRight set_TrimLeft by blast

lemma confLine_no_separator: "\<not> Contains line CHR ''='' \<Longrightarrow> confLine m line = m"
proof -
  assume "\<not> Contains line CHR ''=''"
  then have "CHR ''='' \<notin> set (TrimSpace line)"
    using set_TrimSpace [of line] by (auto simp: Contains_iff)
  then show ?thesis
    by (simp add: confLine_def Let_def SplitN_two_absent)
qed

lemma foldl_confLine_filter:
  "foldl confLine m (filter (\<lambda>l. Contains l CHR ''='') ls) = foldl confLine m ls"
  by (induction ls arbitrary: m) (simp_all add: confLine_no_separator)

lemma pieces_not_Nil: "pieces k c s \<noteq> []"
  by (cases k) (simp_all split: option.splits)

lemma join_Cons: "qs \<noteq> [] \<Longrightarrow> join c (p # qs) = p @ c # join c qs"
  by (cases qs) simp_all

lemma join_pieces: "join c (pieces k c s) = s"
proof (induction k arbitrary: s)
  case 0
  show ?case by simp
next
  case (Suc k)
  show ?case
  proof (cases "Index s c")
    case None
    then show ?thesis by simp
  next
    case (Some m)
    have "join c (pieces (Suc k) c s) = take m s @ c # join c (pieces k c (drop (Suc m) s))"
      by (simp add: Some join_Cons pieces_not_Nil)
    also have "\<dots> = take m s @ c # drop (Suc m) s" by (simp add: Suc.IH)
    also have "\<dots> = s" using Index_Some_decomp [OF Some] by simp
    finally show ?thesis .
  qed
qed

lemma pieces_no_separator:
  "count_list s c \<le> k \<Longrightarrow> p \<in> set (pieces k c s) \<Longrightarrow> c \<notin> set p"
proof (induction k arbitrary: s)
  case 0
  then show ?case by (simp add: count_list_0_iff)
next
  case (Suc k)
  show ?case
  proof (cases "Index s c")
    case None
    with Suc.prems show ?thesis by (simp add: Index_None_iff)
  next
    case (Some m)
    have dec: "s = take m s @ c # drop (Suc m) s" by (rule Index_Some_decomp [OF Some])
    have "count_list s c = count_list (take m s) c + Suc (count_list (drop (Suc m) s) c)"
      by (subst dec) simp
    with Suc.prems(1) have le: "count_list (drop (Suc m) s) c \<le> k" by simp
    from Suc.prems(2) Some
    have "p = take m s \<or> p \<in> set (pieces k c (drop (Suc m) s))" by simp
    then show ?thesis
    proof
      assume "p = take m s"
      then have "p = takeWhile (\<lambda>x. x \<noteq> c) s" by (simp add: Index_Some_take [OF Some])
      then show ?thesis by (auto dest: set_takeWhileD)
    next
      assume "p \<in> set (pieces k c (drop (Suc m) s))"
      then show ?thesis by (rule Suc.IH [OF le])
    qed
  qed
qed

lemma join_Split: "join c (Split s c) = s"
  by (simp add: Split_def join_pieces)

lemma Split_no_separator: "p \<in> set (Split s c) \<Longrightarrow> c \<notin> set p"
  unfolding Split_def by (rule pieces_no_separator [OF order_refl])

lemma Index_append_absent: "c \<notin> set p \<Longrightarrow> Index (p @ c # r) c = Some (length p)"
  by (induction p) auto

lemma pieces_join:
  "segs \<noteq> [] \<Longrightarrow> \<forall>p \<in> set segs. c \<notin> set p \<Longrightarrow> length segs \<le> Suc k \<Longrightarrow>
   pieces k c (join c segs) = segs"
proof (induction segs arbitrary: k)
  case Nil
  then show ?case by simp
next
  case (Cons p qs)
  show ?case
  proof (cases qs)
    case Nil
    with Cons.prems show ?thesis
      by (cases k) (simp_all add: Index_None_iff [THEN iffD2])
  next
    case (Cons q rs)
    with Cons.prems obtain k' where k: "k = Suc k'" by (cases k) auto
    have j: "join c (p # qs) = p @ c # join c qs"
      using Cons by (simp add: join_Cons)
    have i: "Index (p @ c # join c qs) c = Some (length p)"
      using Cons.prems by (simp add: Index_append_absent)
    have "pieces k' c (join c qs) = qs"
      using Cons.prems Cons k by (intro Cons.IH) auto
    then show ?thesis by (simp add: j k i)
  qed
qed

lemma count_list_join:
  "\<forall>p \<in> set segs. c \<notin> set p \<Longrightarrow> count_list (join c segs) c = length segs - 1"
proof (induction segs rule: join.induct[where ?a0.0 = c])
  case (1 c)
  then show ?case by simp
next
  case (2 c p)
  then show ?case by (simp add: count_list_0_iff)
next
  case (3 c p q ps)
  then show ?case by (simp add: count_list_0_iff)
qed

lemma Split_join:
  "segs \<noteq> [] \<Longrightarrow> \<forall>p \<in> set segs. c \<notin> set p \<Longrightarrow> Split (join c segs) c = segs"
  by (simp add: Split_def count_list_join pieces_join)

lemma foldl_child_None:
  "foldl (\<lambda>cur seg. Option.bind cur (\<lambda>w. child w seg)) None segs = None"
  by (induction segs) simp_all

lemma descend_Cons:
  "descend v (seg # segs) = (case child v seg of None \<Rightarrow> None | Some w \<Rightarrow> descend w segs)"
  by (simp add: descend_def foldl_child_None split: option.splits)

lemma descend_snoc:
  "descend v (segs @ [seg]) = Option.bind (descend v segs) (\<lambda>w. child w seg)"
  by (simp add: descend_def)

lemma walk_descend: "walk v segs = descend v segs"
proof (induction segs arbitrary: v)
  case Nil
  show ?case by (simp add: descend_def)
next
  case (Cons seg segs)
  show ?case
    by (cases v) (simp_all add: descend_Cons child_def Cons.IH split: option.splits)
qed

lemma descend_fails_iff:
  "descend v segs = None \<longleftrightarrow>
   (\<exists>i < length segs. \<exists>w. descend v (take i segs) = Some w \<and> child w (segs ! i) = None)"
proof (induction segs rule: rev_induct)
  case Nil
  show ?case by (simp add: descend_def)
next
  case (snoc seg segs)
  show ?case
  proof (cases "descend v segs")
    case None
    then obtain i w where "i < length segs" "descend v (take i segs) = Some w"
      "child w (segs ! i) = None" using snoc.IH by auto
    then have "i < length (segs @ [seg]) \<and> descend v (take i (segs @ [seg])) = Some w
       \<and> child w ((segs @ [seg]) ! i) = None"
      by (simp add: nth_append)
    then show ?thesis using None by (auto simp: descend_snoc simp del: take_append)
  next
    case (Some w)
    then have no: "\<not> (\<exists>i < length segs. \<exists>w. descend v (take i segs) = Some w
        \<and> child w (segs ! i) = None)" using snoc.IH by simp
    show ?thesis
    proof
      assume "descend v (segs @ [seg]) = None"
      then have "child w seg = None" by (simp add: descend_snoc Some)
      then have "length segs < length (segs @ [seg]) \<and>
         descend v (take (length segs) (segs @ [seg])) = Some w \<and>
         child w ((segs @ [seg]) ! length segs) = None"
        by (simp add: Some)
      then show "\<exists>i < length (segs @ [seg]). \<exists>w. descend v (take i (segs @ [seg])) = Some w
          \<and> child w ((segs @ [seg]) ! i) = None" by blast
    next
      assume "\<exists>i < length (segs @ [seg]). \<exists>w. descend v (take i (segs @ [seg])) = Some w
          \<and> child w ((segs @ [seg]) ! i) = None"
      then obtain i u where i: "i < Suc (length segs)"
        and d: "descend v (take i (segs @ [seg])) = Some u"
        and ch: "child u ((segs @ [seg]) ! i) = None" by auto
      have "i = length segs"
      proof (rule ccontr)
        assume "i \<noteq> length segs"
        with i have lt: "i < length segs" by simp
        with d ch have "descend v (take i segs) = Some u \<and> child u (segs ! i) = None"
          by (simp add: nth_append)
        with lt no show False by blast
      qed
      with d ch Some have "child w seg = None" by simp
      then show "descend v (segs @ [seg]) = None" by (simp add: descend_snoc Some)
    qed
  qed
qed

section \<open>Construction\<close>

text \<open>
  C6: for every format tag outside conf, ini, json and yaml and every content, the empty
  one included, construction fails with the unsupported-format error and returns no
  object.
\<close>

theorem unsupported_format_fails:
  "ft \<notin> {''conf'', ''ini'', ''json'', ''yaml''} \<Longrightarrow>
   newConfigParserFromBytes X ft content = Inl (UnsupportedFileType ft)"
  by (simp add: newConfigParserFromBytes_def)

theorem unsupported_format_fails_witness:
  "''unknown'' \<notin> {''conf'', ''ini'', ''json'', ''yaml''} \<and>
   newConfigParserFromBytes sampleLibs ''unknown'' ''foo'' = Inl (UnsupportedFileType ''unknown'') \<and>
   newConfigParserFromBytes sampleLibs ''unknown'' [] = Inl (UnsupportedFileType ''unknown'')"
  using unsupported_format_fails [of "''unknown''" sampleLibs "''foo''"]
    unsupported_format_fails [of "''unknown''" sampleLibs "[]"]
  by simp

text \<open>
  C10: for the format conf construction never fails. For every content it returns an
  object and no error, and the lines without \<^verbatim>\<open>=\<close> are ignored: the flat map is the one
  built from the lines that contain \<^verbatim>\<open>=\<close> alone.
\<close>

theorem conf_construction_never_fails:
  "newConfigParserFromBytes X ''conf'' content =
     Inr \<lparr>data = Map.empty,
          raw = foldl confLine Map.empty
                  (filter (\<lambda>l. Contains l CHR ''='') (Split content (CHR 0x0A))),
          fileType = ''conf'', iniFile = None\<rparr>"
  by (simp add: newConfigParserFromBytes_def foldl_confLine_filter)

section \<open>Lookup in nested documents\<close>

lemma Get_nested:
  "fileType c = ''json'' \<or> fileType c = ''yaml'' \<Longrightarrow>
   Get X c key =
     Some ((case descend (IMap (data c)) (Split key CHR ''.'') of
              None \<Rightarrow> ([], Some (KeyNotFound key))
            | Some v \<Rightarrow> (Sprintf X v, None)), c)"
  by (auto simp: Get_def getNestedValue_def walk_descend split: option.splits)

text \<open>
  C2: for an object of format json or yaml and every key, \<^verbatim>\<open>Get\<close> splits the key on every
  dot (the segments contain no dot and, joined by dots, give the key back) and walks the
  nested data segment by segment. If at some step the current value is no mapping or
  lacks the segment, \<^verbatim>\<open>Get\<close> returns the key-not-found error with the empty string and
  nothing of what it reached; otherwise it returns the value reached, printed.
\<close>

theorem nested_Get_walks_segments:
  assumes "fileType c = ''json'' \<or> fileType c = ''yaml''"
  shows "join CHR ''.'' (Split key CHR ''.'') = key \<and>
     (\<forall>seg \<in> set (Split key CHR ''.''). CHR ''.'' \<notin> set seg) \<and>
     Get X c key =
       Some ((case descend (IMap (data c)) (Split key CHR ''.'') of
                None \<Rightarrow> ([], Some (KeyNotFound key))
              | Some v \<Rightarrow> (Sprintf X v, None)), c) \<and>
     (descend (IMap (data c)) (Split key CHR ''.'') = None \<longleftrightarrow>
        (\<exists>i < length (Split key CHR ''.''). \<exists>w.
            descend (IMap (data c)) (take i (Split key CHR ''.'')) = Some w \<and>
            child w (Split key CHR ''.'' ! i) = None))"
  using Get_nested [OF assms] descend_fails_iff [of "IMap (data c)" "Split key CHR ''.''"]
  by (simp add: join_Split Split_no_separator)

lemma Split_ex1: "Split ''section1.foo'' CHR ''.'' = [''section1'', ''foo'']"
  by (simp add: Split_def)
lemma Split_ex2: "Split ''plain.foo'' CHR ''.'' = [''plain'', ''foo'']"
  by (simp add: Split_def)

theorem nested_Get_walks_segments_witness:
  "(fileType sampleJsonObj = ''json'' \<or> fileType sampleJsonObj = ''yaml'') \<and>
   Get sampleLibs sampleJsonObj ''section1.foo'' = Some ((''bar'', None), sampleJsonObj) \<and>
   Get sampleLibs sampleJsonObj ''plain.foo'' =
     Some (([], Some (KeyNotFound ''plain.foo'')), sampleJsonObj)"
  using nested_Get_walks_segments [of sampleJsonObj "''section1.foo''" sampleLibs]
    nested_Get_walks_segments [of sampleJsonObj "''plain.foo''" sampleLibs]
  by (simp add: sampleJsonObj_def sampleTree_def Split_ex1 Split_ex2 descend_def child_def
      Sprintf_def)

text \<open>
  C5: for an object of format json or yaml and a key whose dotted path (its segments,
  none of them containing a dot, joined by dots) ends at a value that is itself a
  mapping, \<^verbatim>\<open>Get\<close> succeeds: it returns what \<^verbatim>\<open>fmt.Sprintf("%v", v)\<close> prints for the mapping,
  and no error.
\<close>

theorem nested_Get_renders_mapping:
  assumes "fileType c = ''json'' \<or> fileType c = ''yaml''"
    and "segs \<noteq> []" and "\<forall>seg \<in> set segs. CHR ''.'' \<notin> set seg"
    and "descend (IMap (data c)) segs = Some (IMap m)"
  shows "Get X c (join CHR ''.'' segs) = Some ((Sprintf_v X (IMap m), None), c)"
proof -
  have "Split (join CHR ''.'' segs) CHR ''.'' = segs"
    by (rule Split_join [OF assms(2,3)])
  with Get_nested [OF assms(1), of X "join CHR ''.'' segs"] assms(4)
  show ?thesis by (simp add: Sprintf_def)
qed

theorem nested_Get_renders_mapping_witness:
  "(fileType sampleDeepObj = ''json'' \<or> fileType sampleDeepObj = ''yaml'') \<and>
   join CHR ''.'' [''outer'', ''section1''] = ''outer.section1'' \<and>
   CHR ''.'' \<notin> set ''outer'' \<and> CHR ''.'' \<notin> set ''section1'' \<and>
   descend (IMap (data sampleDeepObj)) [''outer'', ''section1''] =
     Some (IMap [''foo'' \<mapsto> IString ''bar'']) \<and>
   Get sampleLibs sampleDeepObj ''outer.section1'' =
     Some ((''map[foo:bar]'', None), sampleDeepObj)"
proof -
  have t: "fileType sampleDeepObj = ''json'' \<or> fileType sampleDeepObj = ''yaml''"
    by (simp add: sampleDeepObj_def)
  have n: "[''outer'', ''section1''] \<noteq> []" by simp
  have d: "\<forall>seg \<in> set [''outer'', ''section1'']. CHR ''.'' \<notin> set seg" by simp
  have w: "descend (IMap (data sampleDeepObj)) [''outer'', ''section1''] =
     Some (IMap [''foo'' \<mapsto> IString ''bar''])"
    by (simp add: sampleDeepObj_def sampleDeepTree_def descend_def child_def)
  from nested_Get_renders_mapping [OF t n d w, of sampleLibs] t w
  show ?thesis by (simp add: sampleLibs_def)
qed

section \<open>Lookup in sectioned files\<close>

lemma transformValue_Nil: "transformValue X f n k [] = []"
  by (simp add: transformValue_def Contains_def)

lemma Section_Key_String_present:
  "iniStored f section k = Some v \<Longrightarrow>
   Section_Key_String X (Some f) section k =
     Some (transformValue X f (sectionName section) k v, f)"
  by (auto simp: Section_Key_String_def File_Section_def Section_Key_def Key_String_def
      iniStored_def Let_def split: option.splits)

lemma Section_Key_String_absent:
  "iniStored f section k = None \<Longrightarrow> k \<noteq> [] \<Longrightarrow>
   Section_Key_String X (Some f) section k =
     Some ([], f(sectionName section \<mapsto>
        (case f (sectionName section) of None \<Rightarrow> Map.empty | Some sec \<Rightarrow> sec)(k \<mapsto> [])))"
  by (auto simp: Section_Key_String_def File_Section_def Section_Key_def Key_String_def
      iniStored_def Let_def transformValue_Nil split: option.splits)

lemma Section_Key_String_nil_key:
  "iniStored f section [] = None \<Longrightarrow> Section_Key_String X (Some f) section [] = None"
  by (auto simp: Section_Key_String_def File_Section_def Section_Key_def
      iniStored_def Let_def split: option.splits)

lemma Get_ini:
  "fileType c = ''ini'' \<Longrightarrow>
   Get X c key =
     (case Section_Key_String X (iniFile c) (fst (iniAddress key)) (snd (iniAddress key)) of
        None \<Rightarrow> None
      | Some (val, f) \<Rightarrow>
          Some ((if val = [] then
                   ([], Some (if CHR ''.'' \<in> set key
                      then KeyNotFoundInSection (snd (iniAddress key)) (fst (iniAddress key))
                      else KeyNotFound key))
                 else (val, None)), c\<lparr>iniFile := Some f\<rparr>))"
proof (cases "CHR ''.'' \<in> set key")
  case True
  assume "fileType c = ''ini''"
  then show ?thesis using True
    by (simp add: Get_def iniAddress_def Contains_iff SplitN_two_present split: option.splits)
next
  case False
  assume "fileType c = ''ini''"
  then show ?thesis using False
    by (simp add: Get_def iniAddress_def Contains_iff split: option.splits)
qed

lemma first_dot_decomp:
  assumes "c \<in> set (key :: string)"
  shows "key = takeWhile (\<lambda>x. x \<noteq> c) key @ c # tl (dropWhile (\<lambda>x. x \<noteq> c) key)"
proof -
  from assms obtain m where m: "Index key c = Some m"
    by (cases "Index key c") (auto simp: Index_None_iff)
  show ?thesis
    using Index_Some_decomp [OF m] Index_Some_take [OF m] Index_Some_drop [OF m] by simp
qed

text \<open>
  What \<^verbatim>\<open>Get\<close> does with a key that has a dot, for a sectioned file: it splits the key at
  the first dot only, into the section (which contains no dot) and the rest, and looks
  the rest up as one literal key of that section, whether or not the rest contains
  dots. The not-found error carries the rest and the section.
\<close>

lemma ini_lookup_at_first_dot:
  assumes "fileType c = ''ini''" and "iniFile c = Some f" and "CHR ''.'' \<in> set key"
    and "section = takeWhile (\<lambda>x. x \<noteq> CHR ''.'') key"
    and "rest = tl (dropWhile (\<lambda>x. x \<noteq> CHR ''.'') key)"
  shows "key = section @ CHR ''.'' # rest \<and> CHR ''.'' \<notin> set section \<and>
     (\<forall>v. iniStored f section rest = Some v \<longrightarrow>
        map_option fst (Get X c key) =
          Some (if transformValue X f (sectionName section) rest v = []
                then ([], Some (KeyNotFoundInSection rest section))
                else (transformValue X f (sectionName section) rest v, None))) \<and>
     (iniStored f section rest = None \<and> rest \<noteq> [] \<longrightarrow>
        map_option fst (Get X c key) = Some ([], Some (KeyNotFoundInSection rest section)))"
proof -
  have addr: "iniAddress key = (section, rest)"
    using assms(3-5) by (simp add: iniAddress_def)
  have k: "key = section @ CHR ''.'' # rest"
    using first_dot_decomp [OF assms(3)] assms(4,5) by simp
  have s: "CHR ''.'' \<notin> set section"
    using assms(4) by (auto dest: set_takeWhileD)
  have g: "Get X c key =
     (case Section_Key_String X (Some f) section rest of
        None \<Rightarrow> None
      | Some (val, f') \<Rightarrow>
          Some ((if val = [] then ([], Some (KeyNotFoundInSection rest section))
                 else (val, None)), c\<lparr>iniFile := Some f'\<rparr>))"
    using assms(2,3) by (simp add: Get_ini [OF assms(1)] addr split: option.splits)
  have p: "map_option fst (Get X c key) =
          Some (if transformValue X f (sectionName section) rest v = []
                then ([], Some (KeyNotFoundInSection rest section))
                else (transformValue X f (sectionName section) rest v, None))"
    if "iniStored f section rest = Some v" for v
    by (simp add: g Section_Key_String_present [OF that])
  have a: "map_option fst (Get X c key) = Some ([], Some (KeyNotFoundInSection rest section))"
    if "iniStored f section rest = None" "rest \<noteq> []"
    by (simp add: g Section_Key_String_absent [OF that])
  show ?thesis using k s p a by blast
qed

lemma construct_sampleIni:
  "newConfigParserFromBytes sampleLibs ''ini'' sampleIniText = Inr sampleIniObj"
  by (simp add: newConfigParserFromBytes_def sampleLibs_def sampleIniObj_def)

lemma ini_lookup_sample:
  "map_option fst (Get sampleLibs sampleIniObj ''s.foo'') = Some (''bar'', None) \<and>
   map_option fst (Get sampleLibs sampleIniObj ''s.foo.bar'') =
     Some ([], Some (KeyNotFoundInSection ''foo.bar'' ''s''))"
proof -
  have o: "fileType sampleIniObj = ''ini''" "iniFile sampleIniObj = Some sampleIni"
    by (simp_all add: sampleIniObj_def)
  have st: "iniStored sampleIni ''s'' ''foo'' = Some ''bar''"
    "iniStored sampleIni ''s'' ''foo.bar'' = None"
    by (simp_all add: iniStored_def sampleIni_def sectionName_def DefaultSection_def)
  have tv: "transformValue sampleLibs sampleIni (sectionName ''s'') ''foo'' ''bar'' = ''bar''"
    by (simp add: transformValue_def Contains_def)
  have "map_option fst (Get sampleLibs sampleIniObj ''s.foo'') = Some (''bar'', None)"
    using ini_lookup_at_first_dot [OF o, of "''s.foo''" "''s''" "''foo''" sampleLibs] st tv
    by simp
  moreover have "map_option fst (Get sampleLibs sampleIniObj ''s.foo.bar'') =
     Some ([], Some (KeyNotFoundInSection ''foo.bar'' ''s''))"
    using ini_lookup_at_first_dot [OF o, of "''s.foo.bar''" "''s''" "''foo.bar''" sampleLibs] st
    by simp
  ultimately show ?thesis by simp
qed

text \<open>
  C3 says that for every key with at least one dot \<^verbatim>\<open>Get\<close> looks the rest up in the named
  section and that the not-found error names the key and the section. For the key
  \<^verbatim>\<open>s.\<close> on the sectioned file \<^verbatim>\<open>[s]\<close>, \<^verbatim>\<open>foo=bar\<close> the rest is the empty string, section
  \<^verbatim>\<open>s\<close> has no key of that name, and \<^verbatim>\<open>Get\<close> returns nothing: \<^verbatim>\<open>Section("s").Key("")\<close> is
  nil and \<^verbatim>\<open>String()\<close> on it panics before the test \<^verbatim>\<open>val == ""\<close> that builds the error.
\<close>

theorem Get_ini_empty_rest_panics:
  "newConfigParserFromBytes sampleLibs ''ini'' sampleIniText = Inr sampleIniObj \<and>
   CHR ''.'' \<in> set ''s.'' \<and>
   SplitN ''s.'' CHR ''.'' 2 = [''s'', []] \<and>
   iniStored sampleIni ''s'' [] = None \<and>
   Get sampleLibs sampleIniObj ''s.'' = None"
proof -
  have sp: "SplitN ''s.'' CHR ''.'' 2 = [''s'', []]"
    by (simp add: SplitN_two_present)
  have a: "iniAddress ''s.'' = (''s'', [])" by (simp add: iniAddress_def)
  have st: "iniStored sampleIni ''s'' [] = None"
    by (simp add: iniStored_def sampleIni_def sectionName_def DefaultSection_def)
  have "Get sampleLibs sampleIniObj ''s.'' = None"
    using Section_Key_String_nil_key [OF st, of sampleLibs]
    by (simp add: Get_ini a sampleIniObj_def)
  with construct_sampleIni sp st show ?thesis by simp
qed

section \<open>Errors, repeated lookups and the state of the object\<close>

lemma Section_Key_String_cases:
  obtains (present) v where "iniStored f section k = Some v"
      "Section_Key_String X (Some f) section k =
         Some (transformValue X f (sectionName section) k v, f)"
  | (created) "iniStored f section k = None" "k \<noteq> []"
      "Section_Key_String X (Some f) section k =
         Some ([], f(sectionName section \<mapsto>
           (case f (sectionName section) of None \<Rightarrow> Map.empty | Some sec \<Rightarrow> sec)(k \<mapsto> [])))"
  | (nil) "iniStored f section k = None" "k = []"
      "Section_Key_String X (Some f) section k = None"
proof (cases "iniStored f section k")
  case (Some v)
  then show ?thesis using present Section_Key_String_present by blast
next
  case None
  show ?thesis
  proof (cases "k = []")
    case True
    with None show ?thesis using nil Section_Key_String_nil_key [of f "section" X] by simp
  next
    case False
    with None show ?thesis using created Section_Key_String_absent by blast
  qed
qed

lemma iniStored_created:
  "iniStored (f(sectionName section \<mapsto> sec(k \<mapsto> v))) section k = Some v"
  by (simp add: iniStored_def)

lemma Section_Key_String_stable:
  assumes "Section_Key_String X (Some f) section k = Some (val, f')"
  shows "Section_Key_String X (Some f') section k = Some (val, f')"
proof (cases rule: Section_Key_String_cases [of f "section" k X])
  case (present v)
  with assms show ?thesis by auto
next
  case created
  with assms have v: "val = []" and f': "f' = f(sectionName section \<mapsto>
      (case f (sectionName section) of None \<Rightarrow> Map.empty | Some sec \<Rightarrow> sec)(k \<mapsto> []))"
    by simp_all
  have "iniStored f' section k = Some []" unfolding f' by (rule iniStored_created)
  from Section_Key_String_present [OF this] show ?thesis
    by (simp add: v transformValue_Nil)
next
  case nil
  with assms show ?thesis by simp
qed

lemma Section_Key_String_None_iff:
  "Section_Key_String X (Some f) section k = None \<longleftrightarrow>
     k = [] \<and> \<not> hasEmptyKey f (sectionName section)"
proof (cases rule: Section_Key_String_cases [of f "section" k X])
  case (present v)
  then show ?thesis
    by (auto simp: iniStored_def hasEmptyKey_def split: option.splits)
next
  case created
  then show ?thesis by simp
next
  case nil
  then show ?thesis
    by (auto simp: iniStored_def hasEmptyKey_def split: option.splits)
qed

lemma Section_Key_String_hasEmptyKey:
  assumes "Section_Key_String X (Some f) section k = Some (val, f')"
  shows "hasEmptyKey f' n = hasEmptyKey f n"
proof (cases rule: Section_Key_String_cases [of f "section" k X])
  case (present v)
  with assms show ?thesis by auto
next
  case created
  with assms have f': "f' = f(sectionName section \<mapsto>
      (case f (sectionName section) of None \<Rightarrow> Map.empty | Some sec \<Rightarrow> sec)(k \<mapsto> []))"
    by simp
  show ?thesis using created(2)
    by (auto simp: f' hasEmptyKey_def split: option.splits)
next
  case nil
  with assms show ?thesis by simp
qed

lemma Get_not_ini:
  "fileType c \<noteq> ''ini'' \<Longrightarrow>
   \<exists>s e. Get X c key = Some ((s, e), c) \<and> (e \<noteq> None \<longrightarrow> s = [])"
  by (simp add: Get_def split: option.splits)

lemma Section_Key_String_nil_file: "Section_Key_String X None section k = None"
  by (simp add: Section_Key_String_def)

lemma Get_ini_Some:
  assumes "fileType c = ''ini''" and "Get X c key = Some ((s, e), c')"
  obtains f val f' where "iniFile c = Some f"
    and "Section_Key_String X (Some f) (fst (iniAddress key)) (snd (iniAddress key)) = Some (val, f')"
    and "c' = c\<lparr>iniFile := Some f'\<rparr>"
    and "s = val" and "val = [] \<longleftrightarrow> e \<noteq> None"
proof (cases "iniFile c")
  case None
  with assms show ?thesis
    by (simp add: Get_ini Section_Key_String_nil_file)
next
  case (Some f)
  with assms that show ?thesis
    by (auto simp: Get_ini split: option.splits if_splits)
qed

lemma Get_error_empty: "Get X c key = Some ((s, Some e), c') \<Longrightarrow> s = []"
proof (cases "fileType c = ''ini''")
  case True
  assume "Get X c key = Some ((s, Some e), c')"
  from Get_ini_Some [OF True this] show ?thesis by (metis option.distinct(1))
next
  case False
  assume "Get X c key = Some ((s, Some e), c')"
  with Get_not_ini [OF False, of X key] show ?thesis by auto
qed

lemma Get_frame:
  assumes "Get X c key = Some (r, c')"
  shows "fileType c' = fileType c \<and> raw c' = raw c \<and> data c' = data c"
proof (cases "fileType c = ''ini''")
  case True
  obtain s e where r: "r = (s, e)" by (cases r)
  show ?thesis
  proof (rule Get_ini_Some [OF True assms [unfolded r]])
    fix f'
    assume "c' = c\<lparr>iniFile := Some f'\<rparr>"
    then show ?thesis by simp
  qed
next
  case False
  with Get_not_ini [OF False, of X key] assms show ?thesis by auto
qed

lemma Get_None_iff:
  "Get X c key = None \<longleftrightarrow>
     fileType c = ''ini'' \<and>
     (case iniFile c of
        None \<Rightarrow> True
      | Some f \<Rightarrow>
          snd (iniAddress key) = [] \<and> \<not> hasEmptyKey f (sectionName (fst (iniAddress key))))"
proof (cases "fileType c = ''ini''")
  case True
  show ?thesis
  proof (cases "iniFile c")
    case None
    then show ?thesis by (simp add: Get_ini [OF True] Section_Key_String_nil_file True)
  next
    case (Some f)
    then show ?thesis
      using Section_Key_String_None_iff
        [of X f "fst (iniAddress key)" "snd (iniAddress key)"]
      by (auto simp: Get_ini [OF True] True split: option.splits)
  qed
next
  case False
  with Get_not_ini [OF False, of X key] show ?thesis by auto
qed

lemma Get_ini_value:
  assumes "fileType c = ''ini''" and "iniFile c = Some f"
    and "Section_Key_String X (Some f) (fst (iniAddress key)) (snd (iniAddress key)) = Some (val, f')"
  shows "Get X c key =
     Some ((if val = [] then
              ([], Some (if CHR ''.'' \<in> set key
                 then KeyNotFoundInSection (snd (iniAddress key)) (fst (iniAddress key))
                 else KeyNotFound key))
            else (val, None)), c\<lparr>iniFile := Some f'\<rparr>)"
  by (simp add: Get_ini [OF assms(1)] assms(2,3))

lemma Get_ini_again:
  assumes "fileType c = ''ini''" and "iniFile c = Some f"
    and "Section_Key_String X (Some f) (fst (iniAddress key)) (snd (iniAddress key)) = Some (val, f')"
  shows "Get X (c\<lparr>iniFile := Some f'\<rparr>) key = Get X c key"
proof -
  have ft: "fileType (c\<lparr>iniFile := Some f'\<rparr>) = ''ini''" using assms(1) by simp
  have fi: "iniFile (c\<lparr>iniFile := Some f'\<rparr>) = Some f'" by simp
  have u: "c\<lparr>iniFile := Some f', iniFile := Some f'\<rparr> = c\<lparr>iniFile := Some f'\<rparr>" by simp
  show ?thesis
    unfolding Get_ini_value [OF ft fi Section_Key_String_stable [OF assms(3)]]
      Get_ini_value [OF assms] u ..
qed


lemma Get_stable_other:
  assumes "fileType c \<noteq> ''ini''" and "Get X c key = Some (r, c')"
  shows "Get X c' key = Some (r, c')"
proof -
  from Get_not_ini [OF assms(1), of X key] obtain s e where g: "Get X c key = Some ((s, e), c)"
    by blast
  from assms(2) [unfolded g] have eq: "c' = c" by simp
  show ?thesis using assms(2) unfolding eq .
qed


lemma Get_stable:
  assumes "Get X c key = Some (r, c')"
  shows "Get X c' key = Some (r, c')"
proof (cases "fileType c = ''ini''")
  case True
  obtain s e where r: "r = (s, e)" by (cases r)
  show ?thesis
  proof (rule Get_ini_Some [OF True assms [unfolded r]])
    fix f val f'
    assume f: "iniFile c = Some f"
      and sks: "Section_Key_String X (Some f) (fst (iniAddress key)) (snd (iniAddress key))
         = Some (val, f')"
      and c': "c' = c\<lparr>iniFile := Some f'\<rparr>"
    have "Get X c' key = Get X c key"
      unfolding c' by (rule Get_ini_again [OF True f sks])
    then show ?thesis using assms by (rule trans)
  qed
next
  case False
  then show ?thesis using assms by (rule Get_stable_other)
qed

lemma Get_keeps_panics:
  assumes "Get X c key = Some (r, c')"
  shows "(Get X c' k = None) = (Get X c k = None)"
proof (cases "fileType c = ''ini''")
  case True
  obtain s e where r: "r = (s, e)" by (cases r)
  show ?thesis
  proof (rule Get_ini_Some [OF True assms [unfolded r]])
    fix f val f'
    assume f: "iniFile c = Some f"
      and sks: "Section_Key_String X (Some f) (fst (iniAddress key)) (snd (iniAddress key))
         = Some (val, f')"
      and c': "c' = c\<lparr>iniFile := Some f'\<rparr>"
    show ?thesis
      by (simp add: Get_None_iff f c' Section_Key_String_hasEmptyKey [OF sks])
  qed
next
  case False
  from Get_not_ini [OF False, of X key] obtain s e where g: "Get X c key = Some ((s, e), c)"
    by blast
  from assms [unfolded g] have "c' = c" by simp
  then show ?thesis by simp
qed

text \<open>
  C7: for every object and key, whenever \<^verbatim>\<open>Get\<close> returns an error the string it returns
  with it is empty. The error leaves the object usable: its format tag, flat map and
  nested tree are unchanged, and every later lookup returns on it exactly when it would
  have returned before.
\<close>

theorem Get_error_has_empty_string:
  assumes "Get X c key = Some ((s, Some e), c')"
  shows "s = [] \<and> fileType c' = fileType c \<and> raw c' = raw c \<and> data c' = data c \<and>
     (\<forall>k. (Get X c' k = None) = (Get X c k = None))"
  using Get_error_empty [OF assms] Get_frame [OF assms] Get_keeps_panics [OF assms]
  by simp

lemma repeatGet_stable:
  "Get X c key = Some (r, c) \<Longrightarrow> repeatGet X c key n = Some (replicate n r, c)"
  by (induction n) simp_all

text \<open>
  C9: repeated calls of \<^verbatim>\<open>Get\<close> with the same key on the same object return the same
  pair of string and error: when the first call returns, every later call returns what
  the first returned.
\<close>

theorem repeated_Get_same_result:
  assumes "Get X c key = Some (r, c')"
  shows "repeatGet X c key (Suc n) = Some (replicate (Suc n) r, c')"
  using assms repeatGet_stable [OF Get_stable [OF assms], of n] by simp

lemma Get_sample_missing:
  "Get sampleLibs sampleIniObj ''s.missing'' =
     Some (([], Some (KeyNotFoundInSection ''missing'' ''s'')),
           sampleIniObj\<lparr>iniFile := Some sampleIniAfter\<rparr>)"
proof -
  have a: "iniAddress ''s.missing'' = (''s'', ''missing'')"
    by (simp add: iniAddress_def)
  have st: "iniStored sampleIni ''s'' ''missing'' = None"
    by (simp add: iniStored_def sampleIni_def sectionName_def DefaultSection_def)
  have up: "sampleIni(sectionName ''s'' \<mapsto>
      (case sampleIni (sectionName ''s'') of None \<Rightarrow> Map.empty | Some sec \<Rightarrow> sec)
        (''missing'' \<mapsto> [])) = sampleIniAfter"
    by (simp add: sampleIni_def sampleIniAfter_def sectionName_def DefaultSection_def)
  have "Section_Key_String sampleLibs (Some sampleIni) ''s'' ''missing'' = Some ([], sampleIniAfter)"
    using Section_Key_String_absent [OF st, of sampleLibs] up by simp
  then show ?thesis
    by (simp add: Get_ini a sampleIniObj_def)
qed

theorem Get_error_has_empty_string_witness:
  "Get sampleLibs sampleIniObj ''s.missing'' =
     Some (([], Some (KeyNotFoundInSection ''missing'' ''s'')),
           sampleIniObj\<lparr>iniFile := Some sampleIniAfter\<rparr>) \<and>
   fileType (sampleIniObj\<lparr>iniFile := Some sampleIniAfter\<rparr>) = ''ini'' \<and>
   (Get sampleLibs (sampleIniObj\<lparr>iniFile := Some sampleIniAfter\<rparr>) ''s.foo'' = None)
     = (Get sampleLibs sampleIniObj ''s.foo'' = None)"
  using Get_error_has_empty_string [OF Get_sample_missing] Get_sample_missing
  by (simp add: sampleIniObj_def)

theorem repeated_Get_same_result_witness:
  "Get sampleLibs sampleIniObj ''s.missing'' =
     Some (([], Some (KeyNotFoundInSection ''missing'' ''s'')),
           sampleIniObj\<lparr>iniFile := Some sampleIniAfter\<rparr>) \<and>
   repeatGet sampleLibs sampleIniObj ''s.missing'' (Suc (Suc (Suc 0))) =
     Some ([([], Some (KeyNotFoundInSection ''missing'' ''s'')),
            ([], Some (KeyNotFoundInSection ''missing'' ''s'')),
            ([], Some (KeyNotFoundInSection ''missing'' ''s''))],
           sampleIniObj\<lparr>iniFile := Some sampleIniAfter\<rparr>)"
  using repeated_Get_same_result [OF Get_sample_missing, of "Suc (Suc 0)"] Get_sample_missing
  by simp

text \<open>
  C8 says that \<^verbatim>\<open>Get\<close> leaves the stored data of the object as construction built it.
  On the sectioned file of the repository's test "ini missing key", \<^verbatim>\<open>Get("s.missing")\<close>
  returns the not-found error, and the section table has a key \<^verbatim>\<open>missing\<close> in section
  \<^verbatim>\<open>s\<close> afterwards that it did not have before.
\<close>

theorem Get_extends_ini_file:
  "newConfigParserFromBytes sampleLibs ''ini'' sampleIniText = Inr sampleIniObj \<and>
   Get sampleLibs sampleIniObj ''s.missing'' =
     Some (([], Some (KeyNotFoundInSection ''missing'' ''s'')),
           sampleIniObj\<lparr>iniFile := Some sampleIniAfter\<rparr>) \<and>
   iniStored sampleIni ''s'' ''missing'' = None \<and>
   iniStored sampleIniAfter ''s'' ''missing'' = Some [] \<and>
   sampleIniAfter \<noteq> sampleIni"
proof -
  have n: "newConfigParserFromBytes sampleLibs ''ini'' sampleIniText = Inr sampleIniObj"
    by (simp add: newConfigParserFromBytes_def sampleLibs_def sampleIniObj_def)
  have b: "iniStored sampleIni ''s'' ''missing'' = None"
    by (simp add: iniStored_def sampleIni_def sectionName_def DefaultSection_def)
  have a: "iniStored sampleIniAfter ''s'' ''missing'' = Some []"
    by (simp add: iniStored_def sampleIniAfter_def sectionName_def DefaultSection_def)
  from a b have "sampleIniAfter \<noteq> sampleIni" by auto
  with n a b Get_sample_missing show ?thesis by simp
qed

section \<open>Flat files\<close>

lemma confLine_confEntry:
  "confLine m line = (case confEntry line of None \<Rightarrow> m | Some (k, v) \<Rightarrow> m(k \<mapsto> v))"
proof (cases "CHR ''='' \<in> set (TrimSpace line)")
  case True
  then show ?thesis
    by (simp add: confLine_def confEntry_def Let_def SplitN_two_present)
next
  case False
  then show ?thesis
    by (simp add: confLine_def confEntry_def Let_def SplitN_two_absent)
qed


lemma raw_conf:
  "newConfigParserFromBytes X ''conf'' content = Inr c \<Longrightarrow>
   fileType c = ''conf'' \<and> raw c = foldl confLine Map.empty (Split content (CHR 0x0A))"
  by (auto simp: newConfigParserFromBytes_def)

lemma loadAndGet_conf:
  "loadAndGet X ''conf'' content k =
     Some (case foldl confLine Map.empty (Split content (CHR 0x0A)) k of
             None \<Rightarrow> ([], Some (KeyNotFound k))
           | Some val \<Rightarrow> (val, None))"
  by (simp add: loadAndGet_def newConfigParserFromBytes_def Get_def split: option.splits)












section \<open>Present and absent keys in every format\<close>

lemma constructed_cases:
  assumes "newConfigParserFromBytes X ft content = Inr c"
  shows "fileType c = ft \<and>
     (ft = ''conf'' \<or> (ft = ''ini'' \<and> iniFile c \<noteq> None) \<or> ft = ''json'' \<or> ft = ''yaml'')"
  using assms
  by (auto simp: newConfigParserFromBytes_def Let_def split: if_splits sum.splits)

lemma Get_conf:
  "fileType c = ''conf'' \<Longrightarrow>
   Get X c key =
     Some ((case raw c key of None \<Rightarrow> ([], Some (KeyNotFound key)) | Some val \<Rightarrow> (val, None)), c)"
  by (simp add: Get_def split: option.splits)

text \<open>
  For the formats conf, json and yaml \<^verbatim>\<open>Get\<close> tells a present key from an absent one: it
  returns the string the decoded data holds for the key and no error, or the empty
  string and the key-not-found error when the data holds none.
\<close>

lemma Get_present_and_absent_other_formats:
  assumes "newConfigParserFromBytes X ft content = Inr c" and "ft \<noteq> ''ini''"
  shows "Get X c key =
     Some ((case decoded X c key of
              None \<Rightarrow> ([], Some (KeyNotFound key))
            | Some v \<Rightarrow> (v, None)), c)"
proof -
  from constructed_cases [OF assms(1)] assms(2) have ft: "fileType c = ft"
    and k: "ft = ''conf'' \<or> ft = ''json'' \<or> ft = ''yaml''"
    by auto
  show ?thesis
  proof (cases "ft = ''conf''")
    case True
    then have c: "fileType c = ''conf''" using ft by simp
    show ?thesis by (simp add: Get_conf [OF c] decoded_def c)
  next
    case False
    with k ft have c: "fileType c = ''json'' \<or> fileType c = ''yaml''" by simp
    then have d: "decoded X c key =
        map_option (Sprintf X) (descend (IMap (data c)) (Split key CHR ''.''))"
      by (auto simp: decoded_def)
    show ?thesis
      by (cases "descend (IMap (data c)) (Split key CHR ''.'')")
        (simp_all add: Get_nested [OF c] d)
  qed
qed

lemma construct_sampleIniEmptyValue:
  "newConfigParserFromBytes sampleLibs ''ini'' sampleIniEmptyValueText = Inr sampleIniEmptyValueObj"
  by (simp add: newConfigParserFromBytes_def sampleLibs_def sampleIniEmptyValueObj_def
      sampleIniText_def sampleIniEmptyValueText_def)

lemma confEntry_ex6: "confEntry ''foo='' = Some (''foo'', [])"
  by code_simp

lemma Split_ex7: "Split ''foo='' (CHR 0x0A) = [''foo='']"
  by (simp add: Split_def)

text \<open>
  C1 says that in every format \<^verbatim>\<open>Get\<close> on a key that is present returns its value and no
  error. For the sectioned file \<^verbatim>\<open>[s]\<close>, \<^verbatim>\<open>foo=\<close> the key \<^verbatim>\<open>foo\<close> is present in section \<^verbatim>\<open>s\<close>
  with the empty string as its value, and \<^verbatim>\<open>Get("s.foo")\<close> returns the not-found error:
  the ini branch takes the empty string for the mark of a missing key. The flat file
  \<^verbatim>\<open>foo=\<close> holds the same entry, and there \<^verbatim>\<open>Get("foo")\<close> returns the empty string and no
  error.
\<close>

theorem Get_ini_empty_value_not_found:
  "newConfigParserFromBytes sampleLibs ''ini'' sampleIniEmptyValueText =
     Inr sampleIniEmptyValueObj \<and>
   iniStored sampleIniEmptyValue ''s'' ''foo'' = Some [] \<and>
   decoded sampleLibs sampleIniEmptyValueObj ''s.foo'' = Some [] \<and>
   map_option fst (Get sampleLibs sampleIniEmptyValueObj ''s.foo'') =
     Some ([], Some (KeyNotFoundInSection ''foo'' ''s'')) \<and>
   loadAndGet sampleLibs ''conf'' ''foo='' ''foo'' = Some ([], None)"
proof -
  have st: "iniStored sampleIniEmptyValue ''s'' ''foo'' = Some []"
    by (simp add: iniStored_def sampleIniEmptyValue_def sectionName_def DefaultSection_def)
  have a: "iniAddress ''s.foo'' = (''s'', ''foo'')" by (simp add: iniAddress_def)
  have d: "decoded sampleLibs sampleIniEmptyValueObj ''s.foo'' = Some []"
    by (simp add: decoded_def sampleIniEmptyValueObj_def a iniValue_def st transformValue_Nil)
  have g: "map_option fst (Get sampleLibs sampleIniEmptyValueObj ''s.foo'') =
     Some ([], Some (KeyNotFoundInSection ''foo'' ''s''))"
    using Section_Key_String_present [OF st, of sampleLibs]
    by (simp add: Get_ini a sampleIniEmptyValueObj_def transformValue_Nil)
  have f: "loadAndGet sampleLibs ''conf'' ''foo='' ''foo'' = Some ([], None)"
    using Split_ex7 by (simp add: loadAndGet_conf confLine_confEntry confEntry_ex6)
  from construct_sampleIniEmptyValue st d g f show ?thesis by simp
qed

end
